theory Spec2Isabelle
  imports Main
begin

section \<open>The data handed to the tree widget\<close>

text \<open>
  \<^verbatim>\<open>customTreeWidgetUI.py\<close> builds a \<^verbatim>\<open>QTreeWidget\<close> from a dictionary. The dictionary maps
  a folder to a list of version groups; a version group is a list of file dictionaries
  (the code only ever reads element \<^verbatim>\<open>0\<close> of a group); a file dictionary maps the field
  names \<^verbatim>\<open>'Sequence'\<close>, \<^verbatim>\<open>'Shot'\<close>, \<^verbatim>\<open>'Version'\<close>, \<^verbatim>\<open>'Location'\<close> to strings.

  The outer dictionary is iterated with \<^verbatim>\<open>.items()\<close>, so its order matters: it is an
  association list in insertion order. A file dictionary is only ever looked up by key:
  it is a map.
\<close>

type_synonym file_dict = "string \<rightharpoonup> string"

type_synonym data_dict = "(string \<times> file_dict list list) list"

text \<open>
  The exceptions the construction can raise: a missing key, \<^verbatim>\<open>val[0]\<close> on an empty group,
  and \<^verbatim>\<open>ValueError\<close> from \<^verbatim>\<open>setText\<close> on a text that holds the NUL character.
\<close>

datatype error = KeyError string | IndexError | ValueError

text \<open>\<^verbatim>\<open>name[k]\<close> on a file dictionary.\<close>

definition getitem :: "file_dict \<Rightarrow> string \<Rightarrow> error + string" where
  "getitem name k = (case name k of None \<Rightarrow> Inl (KeyError k) | Some v \<Rightarrow> Inr v)"

text \<open>\<^verbatim>\<open>val[0]\<close> on a version group.\<close>

fun getitem0 :: "'a list \<Rightarrow> error + 'a" where
  "getitem0 [] = Inl IndexError"
| "getitem0 (x # xs) = Inr x"

text \<open>The module's example dictionary \<^verbatim>\<open>_data\<close>.\<close>

definition file_info :: "string \<Rightarrow> string \<Rightarrow> string \<Rightarrow> string \<Rightarrow> file_dict" where
  "file_info sq sh ve lo =
     [''Sequence'' \<mapsto> sq, ''Shot'' \<mapsto> sh, ''Version'' \<mapsto> ve, ''Location'' \<mapsto> lo]"

definition module_data :: data_dict where
  "module_data =
    [(''/folderOne'',
        [[file_info ''zzz999'' ''zzz_1234'' ''01'' ''/file/path'']]),
     (''/folderTwo'',
        [[file_info ''zzz999'' ''zzz999_000'' ''01'' ''/file/path''],
         [file_info ''zzz999'' ''zzz999_000'' ''02'' ''/file/path'']]),
     (''/folderThree'',
        [[file_info ''abc111'' ''abc111_5678'' ''01'' ''/file/path''],
         [file_info ''abc111'' ''abc111_5678'' ''02'' ''/file/path''],
         [file_info ''abc111'' ''abc111_5678'' ''03'' ''/file/path''],
         [file_info ''abc111'' ''abc111_5678'' ''05'' ''/file/path'']])]"

section \<open>Widgets and items\<close>

text \<open>
  A \<^verbatim>\<open>QLabel\<close>: \<^verbatim>\<open>QLabel()\<close> has the empty text, \<^verbatim>\<open>setText\<close> stores one, \<^verbatim>\<open>text()\<close> reads it.
  The binding cannot pass a string with an embedded NUL character to Qt: on such a string
  \<^verbatim>\<open>setText\<close> raises \<^verbatim>\<open>ValueError\<close> and stores nothing. Every other string, a line feed
  included, is stored as it is.
\<close>

record QLabel =
  "text" :: string

definition QLabel_new :: QLabel where
  "QLabel_new = \<lparr>text = []\<rparr>"

definition setText :: "string \<Rightarrow> QLabel \<Rightarrow> error + QLabel" where
  "setText s l = (if CHR 0x00 \<in> set s then Inl ValueError else Inr (l\<lparr>text := s\<rparr>))"

text \<open>
  What the variable \<^verbatim>\<open>_header\<close> (the \<^verbatim>\<open>parent\<close> argument of \<^verbatim>\<open>CustomTreeItem\<close>) refers
  to: the tree widget itself, or an item created earlier. Items are named by their
  position in creation order.
\<close>

datatype header = Widget | Item nat

fun isinstance_CustomTreeWidget :: "header \<Rightarrow> bool" where
  "isinstance_CustomTreeWidget Widget = True"
| "isinstance_CustomTreeWidget (Item i) = False"

text \<open>
  A \<^verbatim>\<open>CustomTreeItem\<close>: the parent it was constructed under and its four label widgets,
  which the properties \<^verbatim>\<open>sequence\<close>, \<^verbatim>\<open>shot\<close>, \<^verbatim>\<open>version\<close>, \<^verbatim>\<open>location\<close> return.
\<close>

record CustomTreeItem =
  parent :: header
  sequence :: QLabel
  shot :: QLabel
  version :: QLabel
  location :: QLabel

text \<open>
  The \<^verbatim>\<open>CustomTreeWidget\<close>: the dictionary it keeps in \<^verbatim>\<open>_data\<close>, the column count and header
  labels, every item constructed in it (in creation order; Qt appends a new item to the
  children of the parent it is constructed with), and the label widget set on each cell
  by \<^verbatim>\<open>setItemWidget(item, column, widget)\<close>.
\<close>

record CustomTreeWidget =
  data :: data_dict
  columnCount :: nat
  headerLabels :: "string list"
  items :: "CustomTreeItem list"
  itemWidget :: "nat \<times> nat \<rightharpoonup> QLabel"

definition headers :: "string list" where
  "headers = [''Sequence'', ''Shot'', ''Version'', ''Location'']"

definition setItemWidget :: "nat \<Rightarrow> nat \<Rightarrow> QLabel \<Rightarrow> CustomTreeWidget \<Rightarrow> CustomTreeWidget" where
  "setItemWidget i column l w = w\<lparr>itemWidget := (itemWidget w)((i, column) \<mapsto> l)\<rparr>"

text \<open>
  \<^verbatim>\<open>CustomTreeItem.__init__(self, name, top_item, parent)\<close>. The super constructor creates
  the item under \<^verbatim>\<open>parent\<close>; then, column by column, a label is created, given the text
  \<^verbatim>\<open>name[field]\<close> (a missing key raises \<^verbatim>\<open>KeyError\<close>, then a text with NUL raises
  \<^verbatim>\<open>ValueError\<close>) and set on the cell. The result is the new item's position and the
  updated tree widget. An exception is caught nowhere: it leaves
  \<^verbatim>\<open>CustomTreeWidget.__init__\<close> too, so the tree with the half-made item is never returned,
  and the error is the whole result.
\<close>

definition CustomTreeItem_init ::
  "file_dict \<Rightarrow> CustomTreeWidget \<Rightarrow> header \<Rightarrow> error + nat \<times> CustomTreeWidget" where
  "CustomTreeItem_init name top_item prnt =
    (let self = length (items top_item) in
     case getitem name ''Sequence'' of Inl e \<Rightarrow> Inl e | Inr sq \<Rightarrow>
    (case setText sq QLabel_new of Inl e \<Rightarrow> Inl e | Inr sequence_widget \<Rightarrow>
    (let top_item = setItemWidget self 0 sequence_widget top_item in
     case getitem name ''Shot'' of Inl e \<Rightarrow> Inl e | Inr sh \<Rightarrow>
    (case setText sh QLabel_new of Inl e \<Rightarrow> Inl e | Inr shot_widget \<Rightarrow>
    (let top_item = setItemWidget self 1 shot_widget top_item in
     case getitem name ''Version'' of Inl e \<Rightarrow> Inl e | Inr ve \<Rightarrow>
    (case setText ve QLabel_new of Inl e \<Rightarrow> Inl e | Inr version_widget \<Rightarrow>
    (let top_item = setItemWidget self 2 version_widget top_item in
     case getitem name ''Location'' of Inl e \<Rightarrow> Inl e | Inr lo \<Rightarrow>
    (case setText lo QLabel_new of Inl e \<Rightarrow> Inl e | Inr location_widget \<Rightarrow>
    (let top_item = setItemWidget self 3 location_widget top_item in
     Inr (self, top_item\<lparr>items := items top_item @
            [\<lparr>parent = prnt, sequence = sequence_widget, shot = shot_widget,
              version = version_widget, location = location_widget\<rparr>]\<rparr>))))))))))"

text \<open>
  The inner loop of \<^verbatim>\<open>CustomTreeWidget.__init__\<close>, over \<^verbatim>\<open>reversed(value)\<close>:
  \<^verbatim>\<open>
  for val in reversed(value):
      _item = CustomTreeItem(val[0], self, _header)
      if isinstance(_header, CustomTreeWidget):
          _header = _item
  \<close>
\<close>

fun version_loop ::
  "file_dict list list \<Rightarrow> header \<Rightarrow> CustomTreeWidget \<Rightarrow> error + CustomTreeWidget" where
  "version_loop [] hdr self = Inr self"
| "version_loop (val # vals) hdr self =
    (case getitem0 val of Inl e \<Rightarrow> Inl e | Inr name \<Rightarrow>
    (case CustomTreeItem_init name self hdr of Inl e \<Rightarrow> Inl e | Inr (item, self') \<Rightarrow>
     version_loop vals (if isinstance_CustomTreeWidget hdr then Item item else hdr) self'))"

text \<open>
  The outer loop, over \<^verbatim>\<open>self.data.items()\<close>; \<^verbatim>\<open>_header\<close> starts as the widget itself for
  every folder. The key is not used.
\<close>

fun data_loop :: "data_dict \<Rightarrow> CustomTreeWidget \<Rightarrow> error + CustomTreeWidget" where
  "data_loop [] self = Inr self"
| "data_loop ((key, vals) # rest) self =
    (case version_loop (rev vals) Widget self of Inl e \<Rightarrow> Inl e | Inr self' \<Rightarrow>
     data_loop rest self')"

text \<open>
  \<^verbatim>\<open>CustomTreeWidget.__init__(self, data)\<close>: store the dictionary, set the columns, run the
  loops over \<^verbatim>\<open>self.data\<close>. The closing \<^verbatim>\<open>resizeColumnToContents(50)\<close> calls name a column
  that does not exist and change nothing that is modelled here.
\<close>

definition CustomTreeWidget_init :: "data_dict \<Rightarrow> error + CustomTreeWidget" where
  "CustomTreeWidget_init d =
    (let self = \<lparr>data = d, columnCount = 0, headerLabels = [], items = [],
                 itemWidget = Map.empty\<rparr>;
         self = self\<lparr>columnCount := length headers\<rparr>;
         self = self\<lparr>headerLabels := headers\<rparr>
     in data_loop (data self) self)"

section \<open>Reading the tree\<close>

text \<open>
  The children of a parent are the items constructed under it, in creation order.
\<close>

definition children_from :: "nat \<Rightarrow> CustomTreeItem list \<Rightarrow> header \<Rightarrow> nat list" where
  "children_from n its h = map fst (filter (\<lambda>p. parent (snd p) = h) (enumerate n its))"

definition children :: "CustomTreeWidget \<Rightarrow> header \<Rightarrow> nat list" where
  "children w h = children_from 0 (items w) h"

definition topLevelItems :: "CustomTreeWidget \<Rightarrow> nat list" where
  "topLevelItems w = children w Widget"

definition childCount :: "CustomTreeWidget \<Rightarrow> nat \<Rightarrow> nat" where
  "childCount w i = length (children w (Item i))"

text \<open>
  The rows of the view from top to bottom: every child of a parent, each followed by its
  own rows, down to the given number of levels. A tree of \<open>n\<close> items has at most \<open>n\<close>
  levels.
\<close>

fun rows :: "nat \<Rightarrow> CustomTreeWidget \<Rightarrow> header \<Rightarrow> nat list" where
  "rows 0 w h = []"
| "rows (Suc f) w h = concat (map (\<lambda>i. i # rows f w (Item i)) (children w h))"

definition displayed :: "CustomTreeWidget \<Rightarrow> nat list" where
  "displayed w = rows (length (items w)) w Widget"

text \<open>The four texts of an item, and the four values of a file dictionary.\<close>

definition item_texts :: "CustomTreeItem \<Rightarrow> string list" where
  "item_texts it =
     [text (sequence it), text (shot it), text (version it), text (location it)]"

definition file_values :: "file_dict \<Rightarrow> string option list" where
  "file_values name = [name ''Sequence'', name ''Shot'', name ''Version'', name ''Location'']"

section \<open>The window and its button\<close>

text \<open>
  The window holds the tree widget. Which rows are highlighted is the view's own state:
  the positions of the highlighted items; \<^verbatim>\<open>selectedItems()\<close> returns those items.
\<close>

record UI =
  treeWidget :: CustomTreeWidget
  selection :: "nat list"

definition selectedItems :: "UI \<Rightarrow> CustomTreeItem list" where
  "selectedItems ui =
     map (\<lambda>i. items (treeWidget ui) ! i)
         (filter (\<lambda>i. i < length (items (treeWidget ui))) (selection ui))"

text \<open>
  \<^verbatim>\<open>UI.show_data_useage\<close>: the window after the call and the strings printed, one per
  \<^verbatim>\<open>print\<close> call.
\<close>

definition show_data_useage :: "UI \<Rightarrow> UI \<times> string list" where
  "show_data_useage self =
    (let selected_items = selectedItems self in
     if selected_items = [] then (self, [''Please select a row''])
     else (self, concat (map (\<lambda>selected.
             [''>> Sequence: '' @ text (sequence selected),
              ''>> Shot: '' @ text (shot selected),
              ''>> Version: '' @ text (version selected),
              ''>> Location: '' @ text (location selected)]) selected_items)))"

text \<open>
  What the \<^verbatim>\<open>print\<close> calls write to standard output: each string followed by a line
  feed. The lines of an output are the pieces its line feeds end (and what follows the
  last line feed, when that is not empty).
\<close>

definition stdout_text :: "string list \<Rightarrow> string" where
  "stdout_text printed = concat (map (\<lambda>s. s @ [CHR 0x0A]) printed)"

fun lines_from :: "string \<Rightarrow> string \<Rightarrow> string list" where
  "lines_from cur [] = (if cur = [] then [] else [cur])"
| "lines_from cur (c # cs) =
     (if c = CHR 0x0A then cur # lines_from [] cs else lines_from (cur @ [c]) cs)"

definition output_lines :: "string \<Rightarrow> string list" where
  "output_lines out = lines_from [] out"

text \<open>\<^verbatim>\<open>UI.__init__\<close>: the tree widget is built from the module's dictionary; nothing is selected.\<close>

definition UI_init :: "error + UI" where
  "UI_init = (case CustomTreeWidget_init module_data of Inl e \<Rightarrow> Inl e
              | Inr w \<Rightarrow> Inr \<lparr>treeWidget = w, selection = []\<rparr>)"

section \<open>What the loops build, in closed form\<close>

text \<open>
  The functions of this section are not code of the module. They describe the list of items
  the loops produce, so that the theorems below can speak about it; the lemmas
  \<open>version_loop_Inr\<close> and \<open>data_loop_Inr\<close> prove that the loops produce exactly this.
\<close>

text \<open>
  A value the item constructor can show: present and without NUL. A file dictionary is
  complete when its four fields are such values.
\<close>

fun settable :: "string option \<Rightarrow> bool" where
  "settable None = False"
| "settable (Some v) = (CHR 0x00 \<notin> set v)"

definition complete :: "file_dict \<Rightarrow> bool" where
  "complete name \<longleftrightarrow> settable (name ''Sequence'') \<and> settable (name ''Shot'') \<and>
     settable (name ''Version'') \<and> settable (name ''Location'')"

text \<open>The item constructed from a complete file dictionary under a parent.\<close>

definition new_item :: "header \<Rightarrow> file_dict \<Rightarrow> CustomTreeItem" where
  "new_item h name = \<lparr>parent = h, sequence = \<lparr>text = the (name ''Sequence'')\<rparr>,
     shot = \<lparr>text = the (name ''Shot'')\<rparr>, version = \<lparr>text = the (name ''Version'')\<rparr>,
     location = \<lparr>text = the (name ''Location'')\<rparr>\<rparr>"

text \<open>
  The items one run of the inner loop appends, when the tree holds \<open>n\<close> items before it,
  \<^verbatim>\<open>_header\<close> is \<open>h\<close> and the file dictionaries read are \<open>rs\<close>.
\<close>

fun block_items :: "nat \<Rightarrow> header \<Rightarrow> file_dict list \<Rightarrow> CustomTreeItem list" where
  "block_items n h [] = []"
| "block_items n h (r # rs) =
     new_item h r # block_items (Suc n) (if isinstance_CustomTreeWidget h then Item n else h) rs"

text \<open>The items the outer loop appends, one block per folder.\<close>

fun store_items :: "nat \<Rightarrow> file_dict list list \<Rightarrow> CustomTreeItem list" where
  "store_items n [] = []"
| "store_items n (rs # B) = block_items n Widget rs @ store_items (n + length rs) B"

text \<open>The file dictionaries the loops read: element \<open>0\<close> of every group, each folder reversed.\<close>

definition heads :: "data_dict \<Rightarrow> file_dict list list" where
  "heads d = map (\<lambda>kv. map hd (rev (snd kv))) d"

text \<open>The positions of the top-level items, and of the children of item \<open>j\<close>, in such a list.\<close>

fun roots :: "nat \<Rightarrow> 'a list list \<Rightarrow> nat list" where
  "roots n [] = []"
| "roots n (rs # B) = (if rs = [] then [] else [n]) @ roots (n + length rs) B"

fun kids :: "nat \<Rightarrow> 'a list list \<Rightarrow> nat \<Rightarrow> nat list" where
  "kids n [] j = []"
| "kids n (rs # B) j =
     (if j = n \<and> rs \<noteq> [] then [Suc n..<n + length rs] else []) @ kids (n + length rs) B j"

definition total :: "'a list list \<Rightarrow> nat" where
  "total B = sum_list (map length B)"

text \<open>A tree widget with its columns set and no item yet, for the examples.\<close>

definition blank :: CustomTreeWidget where
  "blank = \<lparr>data = [], columnCount = 4, headerLabels = headers, items = [], itemWidget = Map.empty\<rparr>"

section \<open>Lemmas about the loops\<close>

lemma getitem_Inr: "getitem name k = Inr v \<longleftrightarrow> name k = Some v"
  by (simp add: getitem_def split: option.splits)

lemma getitem_Inl: "getitem name k = Inl e \<longleftrightarrow> name k = None \<and> e = KeyError k"
  by (auto simp add: getitem_def split: option.splits)

lemma settable_iff: "settable x \<longleftrightarrow> (\<exists>v. x = Some v \<and> CHR 0x00 \<notin> set v)"
  by (cases x) simp_all

lemma CustomTreeItem_init_Inr:
  assumes "CustomTreeItem_init name w h = Inr (i, w')"
  shows "complete name \<and> i = length (items w) \<and> items w' = items w @ [new_item h name]
     \<and> data w' = data w \<and> columnCount w' = columnCount w \<and> headerLabels w' = headerLabels w"
  using assms
  by (auto simp: CustomTreeItem_init_def Let_def getitem_def complete_def new_item_def
      setText_def QLabel_new_def setItemWidget_def split: option.splits if_splits)

lemma CustomTreeItem_init_complete:
  assumes "complete name"
  shows "\<exists>w'. CustomTreeItem_init name w h = Inr (length (items w), w')"
  using assms
  by (auto simp: CustomTreeItem_init_def Let_def getitem_def setText_def complete_def
      settable_iff)

lemma length_block_items: "length (block_items n h rs) = length rs"
  by (induction rs arbitrary: n h) auto

lemma version_loop_Inr:
  "version_loop vals h w = Inr w' \<Longrightarrow>
     items w' = items w @ block_items (length (items w)) h (map hd vals) \<and>
     (\<forall>v \<in> set vals. v \<noteq> [] \<and> complete (hd v)) \<and> data w' = data w"
proof (induction vals arbitrary: h w)
  case Nil
  then show ?case by simp
next
  case (Cons val vals)
  from Cons.prems obtain name rest where val: "val = name # rest"
    by (cases val) auto
  from Cons.prems val obtain i w1 where
    ini: "CustomTreeItem_init name w h = Inr (i, w1)" and
    rec: "version_loop vals (if isinstance_CustomTreeWidget h then Item i else h) w1 = Inr w'"
    by (auto split: sum.splits)
  note a = CustomTreeItem_init_Inr [OF ini]
  note b = Cons.IH [OF rec]
  from a b val show ?case by simp
qed

lemma data_loop_Inr:
  "data_loop d w = Inr w' \<Longrightarrow>
     items w' = items w @ store_items (length (items w)) (map (\<lambda>kv. map hd (rev (snd kv))) d) \<and>
     (\<forall>kv \<in> set d. \<forall>v \<in> set (snd kv). v \<noteq> [] \<and> complete (hd v)) \<and> data w' = data w"
proof (induction d arbitrary: w)
  case Nil
  then show ?case by simp
next
  case (Cons kv d)
  obtain key vals where kv: "kv = (key, vals)" by (cases kv)
  from Cons.prems kv obtain w1 where
    vl: "version_loop (rev vals) Widget w = Inr w1" and rec: "data_loop d w1 = Inr w'"
    by (auto split: sum.splits)
  note a = version_loop_Inr [OF vl]
  note b = Cons.IH [OF rec]
  from a b kv show ?case by (simp add: length_block_items)
qed

lemma children_from_Nil [simp]: "children_from n [] h = []"
  by (simp add: children_from_def)

lemma children_from_Cons:
  "children_from n (x # xs) h = (if parent x = h then [n] else []) @ children_from (Suc n) xs h"
  by (simp add: children_from_def)

lemma children_from_append:
  "children_from n (xs @ ys) h = children_from n xs h @ children_from (n + length xs) ys h"
  by (simp add: children_from_def enumerate_append_eq)

lemma parent_new_item [simp]: "parent (new_item h r) = h"
  by (simp add: new_item_def)

lemma children_from_map_new_item:
  "children_from n (map (new_item h') rs) h = (if h = h' then [n..<n + length rs] else [])"
proof (induction rs arbitrary: n)
  case Nil
  then show ?case by simp
next
  case (Cons r rs)
  have "[n..<n + length (r # rs)] = n # [Suc n..<Suc n + length rs]"
    using upt_conv_Cons [of n "n + length (r # rs)"] by simp
  with Cons show ?case by (simp add: children_from_Cons)
qed

lemma block_items_Item: "block_items n (Item p) rs = map (new_item (Item p)) rs"
  by (induction rs arbitrary: n) auto

lemma block_items_Widget:
  "block_items n Widget (r # rs) = new_item Widget r # map (new_item (Item n)) rs"
  by (simp add: block_items_Item)

lemma children_block_Widget:
  "children_from n (block_items n Widget rs) Widget = (if rs = [] then [] else [n])"
  by (cases rs) (simp_all add: block_items_Item children_from_Cons children_from_map_new_item)

lemma children_block_Item:
  "children_from n (block_items n Widget rs) (Item j) =
     (if j = n \<and> rs \<noteq> [] then [Suc n..<n + length rs] else [])"
  by (cases rs) (auto simp add: block_items_Item children_from_Cons children_from_map_new_item)

lemma children_store_Widget: "children_from n (store_items n B) Widget = roots n B"
  by (induction B arbitrary: n)
     (simp_all add: children_from_append children_block_Widget length_block_items)

lemma children_store_Item: "children_from n (store_items n B) (Item j) = kids n B j"
  by (induction B arbitrary: n)
     (simp_all add: children_from_append children_block_Item length_block_items)

lemma length_store_items: "length (store_items n B) = total B"
  by (induction B arbitrary: n) (simp_all add: total_def length_block_items)

lemma kids_below: "j < n \<Longrightarrow> kids n B j = []"
  by (induction B arbitrary: n) auto

lemma roots_ge: "j \<in> set (roots n B) \<Longrightarrow> n \<le> j"
  by (induction B arbitrary: n) (fastforce split: if_splits)+

lemma kids_range: "c \<in> set (kids n B j) \<Longrightarrow> j < c \<and> c < n + total B"
proof (induction B arbitrary: n)
  case Nil
  then show ?case by simp
next
  case (Cons rs B)
  show ?case
  proof (cases "c \<in> set (kids (n + length rs) B j)")
    case True
    from Cons.IH [OF True] show ?thesis by (simp add: total_def)
  next
    case False
    with Cons.prems show ?thesis by (auto simp: total_def split: if_splits)
  qed
qed

lemma kids_of_kid: "c \<in> set (kids n B j) \<Longrightarrow> kids n B c = []"
proof (induction B arbitrary: n)
  case Nil
  then show ?case by simp
next
  case (Cons rs B)
  show ?case
  proof (cases "c \<in> set (kids (n + length rs) B j)")
    case True
    from Cons.IH [OF True] kids_range [OF True] kids_below [of j "n + length rs" B] True
    show ?thesis by (cases "j < n + length rs") auto
  next
    case False
    with Cons.prems have "j = n" "rs \<noteq> []" "Suc n \<le> c" "c < n + length rs"
      by (auto split: if_splits)
    then show ?thesis by (simp add: kids_below)
  qed
qed

lemma rows_concat: "concat (map (\<lambda>j. j # kids n B j) (roots n B)) = [n..<n + total B]"
proof (induction B arbitrary: n)
  case Nil
  then show ?case by (simp add: total_def)
next
  case (Cons rs B)
  have far: "\<And>j. j \<in> set (roots (n + length rs) B) \<Longrightarrow> kids n (rs # B) j = kids (n + length rs) B j"
  proof -
    fix j assume "j \<in> set (roots (n + length rs) B)"
    then have "n + length rs \<le> j" by (rule roots_ge)
    then show "kids n (rs # B) j = kids (n + length rs) B j" by auto
  qed
  have "concat (map (\<lambda>j. j # kids n (rs # B) j) (roots (n + length rs) B))
      = concat (map (\<lambda>j. j # kids (n + length rs) B j) (roots (n + length rs) B))"
    by (rule arg_cong [where f = concat], rule map_cong) (simp_all only: far)
  also have "\<dots> = [n + length rs..<n + length rs + total B]" by (rule Cons.IH)
  finally have tl: "concat (map (\<lambda>j. j # kids n (rs # B) j) (roots (n + length rs) B))
      = [n + length rs..<n + length rs + total B]" .
  show ?case
  proof (cases "rs = []")
    case True
    with tl show ?thesis by (simp add: total_def)
  next
    case False
    then have len: "0 < length rs" by simp
    have hd: "n # kids n (rs # B) n = [n..<n + length rs]"
      using False len by (simp add: kids_below upt_conv_Cons)
    have "[n..<n + total (rs # B)] = [n..<n + length rs] @ [n + length rs..<n + length rs + total B]"
      using upt_add_eq_append [of n "n + length rs" "total B"]
      by (simp add: total_def add.assoc)
    with tl hd False show ?thesis by simp
  qed
qed

lemma rows_leaf: "children w (Item c) = [] \<Longrightarrow> rows f w (Item c) = []"
  by (cases f) simp_all

lemma children_built_Item: "items w = store_items 0 B \<Longrightarrow> children w (Item j) = kids 0 B j"
  by (simp add: children_def children_store_Item)

lemma children_built_Widget: "items w = store_items 0 B \<Longrightarrow> children w Widget = roots 0 B"
  by (simp add: children_def children_store_Widget)

lemma rows_Item:
  assumes "items w = store_items 0 B" and "f = 0 \<longrightarrow> total B \<le> 1"
  shows "rows f w (Item j) = kids 0 B j"
proof (cases f)
  case 0
  with assms(2) have "total B \<le> 1" by simp
  with kids_range [of _ 0 B j] have "kids 0 B j = []"
    by (cases "kids 0 B j") fastforce+
  with 0 show ?thesis by simp
next
  case (Suc g)
  have leaf: "\<And>c. c \<in> set (kids 0 B j) \<Longrightarrow> rows g w (Item c) = []"
    by (rule rows_leaf) (simp add: children_built_Item [OF assms(1)] kids_of_kid)
  have "rows f w (Item j) = concat (map (\<lambda>i. i # rows g w (Item i)) (kids 0 B j))"
    by (simp add: Suc children_built_Item [OF assms(1)])
  also have "\<dots> = concat (map (\<lambda>i. [i]) (kids 0 B j))"
    by (rule arg_cong [where f = concat], rule map_cong) (simp_all add: leaf)
  also have "\<dots> = kids 0 B j"
    by (induction "kids 0 B j") simp_all
  finally show ?thesis .
qed

lemma displayed_built:
  assumes "items w = store_items 0 B"
  shows "displayed w = [0..<total B]"
proof (cases "total B")
  case 0
  with assms show ?thesis by (simp add: displayed_def length_store_items)
next
  case (Suc f)
  have "\<And>j. rows f w (Item j) = kids 0 B j"
    by (rule rows_Item [OF assms]) (simp add: Suc)
  then have "rows (Suc f) w Widget = concat (map (\<lambda>j. j # kids 0 B j) (roots 0 B))"
    by (simp add: children_built_Widget [OF assms])
  also have "\<dots> = [0..<0 + total B]" by (rule rows_concat)
  finally show ?thesis using assms Suc by (simp add: displayed_def length_store_items)
qed

lemma version_loop_total:
  "\<forall>v \<in> set vals. v \<noteq> [] \<and> complete (hd v) \<Longrightarrow> \<exists>w'. version_loop vals h w = Inr w'"
proof (induction vals arbitrary: h w)
  case Nil
  then show ?case by simp
next
  case (Cons val vals)
  then obtain name rest where val: "val = name # rest" and c: "complete name"
    by (cases val) auto
  from CustomTreeItem_init_complete [OF c, of w h] obtain w1 where
    "CustomTreeItem_init name w h = Inr (length (items w), w1)" by blast
  with Cons val show ?case by simp
qed

lemma data_loop_total:
  "\<forall>kv \<in> set d. \<forall>v \<in> set (snd kv). v \<noteq> [] \<and> complete (hd v) \<Longrightarrow> \<exists>w'. data_loop d w = Inr w'"
proof (induction d arbitrary: w)
  case Nil
  then show ?case by simp
next
  case (Cons kv d)
  obtain key vals where kv: "kv = (key, vals)" by (cases kv)
  from Cons.prems kv have "\<forall>v \<in> set (rev vals). v \<noteq> [] \<and> complete (hd v)" by simp
  from version_loop_total [OF this, of Widget w] obtain w1 where
    "version_loop (rev vals) Widget w = Inr w1" by blast
  with Cons kv show ?case by simp
qed

lemma init_Inr:
  assumes "CustomTreeWidget_init d = Inr w"
  shows "items w = store_items 0 (map (\<lambda>kv. map hd (rev (snd kv))) d)"
    and "\<forall>kv \<in> set d. \<forall>v \<in> set (snd kv). v \<noteq> [] \<and> complete (hd v)"
    and "data w = d"
  using data_loop_Inr [of d _ w] assms
  by (simp_all add: CustomTreeWidget_init_def Let_def)

lemma init_total:
  "\<forall>kv \<in> set d. \<forall>v \<in> set (snd kv). v \<noteq> [] \<and> complete (hd v) \<Longrightarrow> \<exists>w. CustomTreeWidget_init d = Inr w"
  by (simp add: CustomTreeWidget_init_def Let_def data_loop_total)

lemma store_items_append:
  "store_items n (A @ B) = store_items n A @ store_items (n + total A) B"
  by (induction A arbitrary: n) (simp_all add: total_def add.assoc)

lemma total_heads: "total (map (\<lambda>kv. map hd (rev (snd kv))) d) = length (concat (map snd d))"
  by (induction d) (simp_all add: total_def)

lemma block_items_nth:
  "i < length rs \<Longrightarrow> block_items n Widget rs ! i = new_item (if i = 0 then Widget else Item n) (rs ! i)"
  by (cases rs) (auto simp: block_items_Item nth_Cons split: nat.splits)

lemma texts_new_item:
  "complete r \<Longrightarrow> map Some (item_texts (new_item h r)) = file_values r"
  by (auto simp: complete_def item_texts_def new_item_def file_values_def settable_iff)

lemma heads_append: "heads (pre @ (key, vals) # post) = heads pre @ map hd (rev vals) # heads post"
  by (simp add: heads_def)

lemma total_heads': "total (heads d) = length (concat (map snd d))"
  using total_heads by (simp add: heads_def)

lemma init_items: "CustomTreeWidget_init d = Inr w \<Longrightarrow> items w = store_items 0 (heads d)"
  by (simp add: heads_def init_Inr(1))

lemma folder_block:
  assumes "CustomTreeWidget_init (pre @ (key, vals) # post) = Inr w"
  shows "items w = store_items 0 (heads pre) @
           block_items (length (concat (map snd pre))) Widget (map hd (rev vals)) @
           store_items (length (concat (map snd pre)) + length vals) (heads post)"
  using init_items [OF assms]
  by (simp add: heads_append store_items_append total_heads')

lemma folder_nth:
  assumes "CustomTreeWidget_init (pre @ (key, vals) # post) = Inr w" and "i < length vals"
  shows "items w ! (length (concat (map snd pre)) + i) =
         new_item (if i = 0 then Widget else Item (length (concat (map snd pre)))) (hd (rev vals ! i))"
proof -
  let ?r = "length (concat (map snd pre))"
  have len: "length (store_items 0 (heads pre)) = ?r"
    by (simp add: length_store_items total_heads')
  have "items w ! (?r + i) = block_items ?r Widget (map hd (rev vals)) ! i"
    using assms(2) by (simp add: folder_block [OF assms(1)] nth_append len length_block_items)
  with assms(2) show ?thesis by (simp add: block_items_nth)
qed

lemma kids_append: "kids n (A @ C) j = kids n A j @ kids (n + total A) C j"
  by (induction A arbitrary: n) (simp_all add: total_def add.assoc)

lemma roots_append: "roots n (A @ C) = roots n A @ roots (n + total A) C"
  by (induction A arbitrary: n) (simp_all add: total_def add.assoc)

lemma roots_lt: "j \<in> set (roots n B) \<Longrightarrow> j < n + total B"
  by (induction B arbitrary: n) (fastforce simp: total_def split: if_splits)+

lemma kids_empty_total: "total A \<le> j \<Longrightarrow> kids 0 A j = []"
  using kids_range [of _ 0 A j] by (cases "kids 0 A j") fastforce+

lemma folder_children:
  assumes "CustomTreeWidget_init (pre @ (key, vals) # post) = Inr w" and "vals \<noteq> []"
  shows "children w (Item (length (concat (map snd pre)))) =
         [Suc (length (concat (map snd pre)))..<length (concat (map snd pre)) + length vals]"
proof -
  let ?r = "length (concat (map snd pre))"
  have "children w (Item ?r) = kids 0 (heads (pre @ (key, vals) # post)) ?r"
    by (rule children_built_Item) (rule init_items [OF assms(1)])
  also have "\<dots> = kids 0 (heads pre) ?r @ kids ?r (map hd (rev vals) # heads post) ?r"
    by (simp only: heads_append kids_append total_heads' add_0)
  also have "kids 0 (heads pre) ?r = []"
    by (rule kids_empty_total) (simp add: total_heads')
  also have "kids ?r (map hd (rev vals) # heads post) ?r = [Suc ?r..<?r + length vals]"
    using assms(2) by (simp add: kids_below)
  finally show ?thesis by simp
qed

lemma folder_toplevel:
  assumes "CustomTreeWidget_init (pre @ (key, vals) # post) = Inr w" and "vals \<noteq> []"
  shows "filter (\<lambda>i. length (concat (map snd pre)) \<le> i \<and> i < length (concat (map snd pre)) + length vals)
           (topLevelItems w) = [length (concat (map snd pre))]"
proof -
  let ?r = "length (concat (map snd pre))"
  let ?P = "\<lambda>i. ?r \<le> i \<and> i < ?r + length vals"
  have "topLevelItems w = roots 0 (heads (pre @ (key, vals) # post))"
    unfolding topLevelItems_def
    by (rule children_built_Widget) (rule init_items [OF assms(1)])
  also have "\<dots> = roots 0 (heads pre) @ [?r] @ roots (?r + length vals) (heads post)"
    using assms(2) by (simp add: heads_append roots_append total_heads')
  finally have tl: "topLevelItems w = roots 0 (heads pre) @ [?r] @ roots (?r + length vals) (heads post)" .
  have a: "filter ?P (roots 0 (heads pre)) = []"
  proof -
    have "\<forall>j \<in> set (roots 0 (heads pre)). j < ?r"
      using roots_lt [of _ 0 "heads pre"] by (simp add: total_heads')
    then show ?thesis by (fastforce simp: filter_empty_conv)
  qed
  have b: "filter ?P (roots (?r + length vals) (heads post)) = []"
    using roots_ge [of _ "?r + length vals" "heads post"] by (fastforce simp: filter_empty_conv)
  from assms(2) have "0 < length vals" by simp
  with tl a b show ?thesis by simp
qed

lemma complete_file_info [simp]:
  "CHR 0x00 \<notin> set sq \<Longrightarrow> CHR 0x00 \<notin> set sh \<Longrightarrow> CHR 0x00 \<notin> set ve \<Longrightarrow> CHR 0x00 \<notin> set lo \<Longrightarrow>
     complete (file_info sq sh ve lo)"
  by (simp add: complete_def file_info_def)

lemma module_data_ok:
  "\<forall>kv \<in> set module_data. \<forall>v \<in> set (snd kv). v \<noteq> [] \<and> complete (hd v)"
  by (simp add: module_data_def)

section \<open>The claims\<close>

text \<open>
  Claim C10. Building the tree does not modify the input dictionary, and the widget's
  \<^verbatim>\<open>data\<close> property returns it. The widget keeps the dictionary in \<^verbatim>\<open>_data\<close> and is the
  state threaded through both loops, so the dictionary the finished widget holds is the
  dictionary after construction: whenever the constructor returns, it is the input.
\<close>

theorem data_unchanged:
  assumes "CustomTreeWidget_init d = Inr w"
  shows "data w = d"
  using assms by (rule init_Inr(3))

text \<open>The module's own dictionary is such an input.\<close>

theorem data_unchanged_witness:
  "case CustomTreeWidget_init module_data of Inl e \<Rightarrow> False | Inr w \<Rightarrow> data w = module_data"
proof -
  from init_total [OF module_data_ok] obtain w where w: "CustomTreeWidget_init module_data = Inr w"
    by blast
  from data_unchanged [OF w] w show ?thesis by simp
qed




text \<open>
  Claim C6. With no item selected, \<^verbatim>\<open>show_data_useage\<close> prints the single line
  \<^verbatim>\<open>Please select a row\<close>, no field line, and returns with the window unchanged.
\<close>

theorem no_selection:
  assumes "selectedItems ui = []"
  shows "show_data_useage ui = (ui, [''Please select a row''])"
  using assms by (simp add: show_data_useage_def)

text \<open>Reading the \<open>k\<close>-th chunk of a concatenation of chunks of equal length.\<close>

lemma concat_chunks:
  assumes "\<And>x. length (g x) = n" and "k < length xs"
  shows "take n (drop (n * k) (concat (map g xs))) = g (xs ! k)"
  using assms(2)
proof (induction xs arbitrary: k)
  case Nil
  then show ?case by simp
next
  case (Cons x xs)
  show ?case
  proof (cases k)
    case 0
    then show ?thesis by (simp add: assms(1))
  next
    case (Suc j)
    with Cons.prems have "j < length xs" by simp
    from Cons.IH [OF this] Suc show ?thesis by (simp add: assms(1))
  qed
qed

lemma length_concat_chunks:
  assumes "\<And>x. length (g x) = n"
  shows "length (concat (map g xs)) = n * length xs"
  by (induction xs) (simp_all add: assms)

text \<open>The printed strings are the output lines when none of them holds a line feed.\<close>

lemma lines_from_line:
  "CHR 0x0A \<notin> set s \<Longrightarrow> lines_from cur (s @ CHR 0x0A # rest) = (cur @ s) # lines_from [] rest"
  by (induction s arbitrary: cur) auto

lemma output_lines_stdout:
  "\<forall>s \<in> set printed. CHR 0x0A \<notin> set s \<Longrightarrow> output_lines (stdout_text printed) = printed"
proof (induction printed)
  case Nil
  then show ?case by (simp add: output_lines_def stdout_text_def)
next
  case (Cons s printed)
  then have "CHR 0x0A \<notin> set s" and "output_lines (stdout_text printed) = printed" by simp_all
  then show ?case
    using lines_from_line [of s "[]" "stdout_text printed"]
    by (simp add: output_lines_def stdout_text_def)
qed

text \<open>
  Claim C5, as stated, fails: the output is not always four lines for a selected item,
  each with its field name in front. A text is shown and printed as it is; when the Shot
  of the selected item holds a line feed, the four \<^verbatim>\<open>print\<close> calls write five lines, and the
  third has no field name.
\<close>

theorem show_selection_lines_counterexample:
  "case CustomTreeWidget_init
       [(''/folderOne'',
         [[file_info ''zzz999'' (''zzz'' @ CHR 0x0A # ''1234'') ''01'' ''/file/path'']])] of
     Inl e \<Rightarrow> False
   | Inr w \<Rightarrow>
       output_lines (stdout_text (snd (show_data_useage \<lparr>treeWidget = w, selection = [0]\<rparr>))) =
         [''>> Sequence: zzz999'', ''>> Shot: zzz'', ''1234'', ''>> Version: 01'',
          ''>> Location: /file/path'']"
proof -
  let ?d = "[(''/folderOne'',
         [[file_info ''zzz999'' (''zzz'' @ CHR 0x0A # ''1234'') ''01'' ''/file/path'']])]"
  have "\<forall>kv \<in> set ?d. \<forall>v \<in> set (snd kv). v \<noteq> [] \<and> complete (hd v)"
    by simp
  from init_total [OF this] obtain w where w: "CustomTreeWidget_init ?d = Inr w" by blast
  have "items w = [new_item Widget (file_info ''zzz999'' (''zzz'' @ CHR 0x0A # ''1234'') ''01'' ''/file/path'')]"
    by (simp add: init_items [OF w] heads_def)
  then have "output_lines (stdout_text (snd (show_data_useage \<lparr>treeWidget = w, selection = [0]\<rparr>))) =
      [''>> Sequence: zzz999'', ''>> Shot: zzz'', ''1234'', ''>> Version: 01'',
       ''>> Location: /file/path'']"
    by (simp add: show_data_useage_def selectedItems_def stdout_text_def output_lines_def
        new_item_def file_info_def)
  with w show ?thesis by simp
qed

text \<open>
  Claim C5, amended. With a non-empty selection, \<^verbatim>\<open>show_data_useage\<close> makes four \<^verbatim>\<open>print\<close> calls for
  every selected item, in the order of the selection: the item's Sequence, Shot, Version
  and Location texts, in this order, each after \<^verbatim>\<open>>> \<close>, the field name and \<^verbatim>\<open>: \<close>, and
  leaves the window unchanged. When no text of a selected item holds a line feed, the
  lines of the output are exactly these strings: four lines for every selected item.
\<close>

theorem show_selection_lines:
  assumes "selectedItems ui = sel" and "sel \<noteq> []"
  shows "fst (show_data_useage ui) = ui \<and>
         length (snd (show_data_useage ui)) = 4 * length sel \<and>
         (\<forall>k < length sel. take 4 (drop (4 * k) (snd (show_data_useage ui))) =
            [''>> Sequence: '' @ text (sequence (sel ! k)),
             ''>> Shot: '' @ text (shot (sel ! k)),
             ''>> Version: '' @ text (version (sel ! k)),
             ''>> Location: '' @ text (location (sel ! k))]) \<and>
         ((\<forall>it \<in> set sel. CHR 0x0A \<notin> set (text (sequence it)) \<and>
              CHR 0x0A \<notin> set (text (shot it)) \<and> CHR 0x0A \<notin> set (text (version it)) \<and>
              CHR 0x0A \<notin> set (text (location it))) \<longrightarrow>
          output_lines (stdout_text (snd (show_data_useage ui))) = snd (show_data_useage ui))"
proof -
  let ?g = "\<lambda>selected. [''>> Sequence: '' @ text (sequence selected),
              ''>> Shot: '' @ text (shot selected),
              ''>> Version: '' @ text (version selected),
              ''>> Location: '' @ text (location selected)]"
  have out: "show_data_useage ui = (ui, concat (map ?g sel))"
    using assms by (simp add: show_data_useage_def)
  have len: "\<And>x. length (?g x) = 4" by simp
  have "length (concat (map ?g sel)) = 4 * length sel"
    by (rule length_concat_chunks) simp
  moreover have "\<forall>k < length sel. take 4 (drop (4 * k) (concat (map ?g sel))) = ?g (sel ! k)"
    using concat_chunks [of ?g 4 _ sel] by simp
  moreover have "(\<forall>it \<in> set sel. CHR 0x0A \<notin> set (text (sequence it)) \<and>
              CHR 0x0A \<notin> set (text (shot it)) \<and> CHR 0x0A \<notin> set (text (version it)) \<and>
              CHR 0x0A \<notin> set (text (location it))) \<longrightarrow>
      output_lines (stdout_text (concat (map ?g sel))) = concat (map ?g sel)"
  proof
    assume "\<forall>it \<in> set sel. CHR 0x0A \<notin> set (text (sequence it)) \<and>
              CHR 0x0A \<notin> set (text (shot it)) \<and> CHR 0x0A \<notin> set (text (version it)) \<and>
              CHR 0x0A \<notin> set (text (location it))"
    then have "\<forall>s \<in> set (concat (map ?g sel)). CHR 0x0A \<notin> set s" by auto
    then show "output_lines (stdout_text (concat (map ?g sel))) = concat (map ?g sel)"
      by (rule output_lines_stdout)
  qed
  ultimately show ?thesis by (simp only: out fst_conv snd_conv)
qed

text \<open>
  Claim C4. Whenever the item constructor returns an item for a file dictionary, the item
  is the newest one of the tree, and \<^verbatim>\<open>sequence.text()\<close>, \<^verbatim>\<open>shot.text()\<close>,
  \<^verbatim>\<open>version.text()\<close> and \<^verbatim>\<open>location.text()\<close> read back exactly the dictionary's four
  values; the labels shown in the four cells of the item's row are these same labels.
  (The constructor returns for every dictionary with the four fields and no NUL in them:
  lemma \<open>CustomTreeItem_init_complete\<close>.)
\<close>

theorem item_round_trip:
  assumes "CustomTreeItem_init name w prnt = Inr (i, w')"
  shows "i = length (items w) \<and>
         map Some (item_texts (items w' ! i)) = file_values name \<and>
         itemWidget w' (i, 0) = Some (sequence (items w' ! i)) \<and>
         itemWidget w' (i, 1) = Some (shot (items w' ! i)) \<and>
         itemWidget w' (i, 2) = Some (version (items w' ! i)) \<and>
         itemWidget w' (i, 3) = Some (location (items w' ! i))"
  using assms
  by (auto simp: CustomTreeItem_init_def Let_def getitem_def item_texts_def file_values_def
      setText_def QLabel_new_def setItemWidget_def split: option.splits if_splits)

text \<open>The record of \<^verbatim>\<open>/folderOne\<close>, constructed in an empty tree.\<close>

theorem item_round_trip_witness:
  "case CustomTreeItem_init (file_info ''zzz999'' ''zzz_1234'' ''01'' ''/file/path'') blank Widget of
     Inl e \<Rightarrow> False
   | Inr (i, w') \<Rightarrow> item_texts (items w' ! i) = [''zzz999'', ''zzz_1234'', ''01'', ''/file/path'']"
proof -
  have "complete (file_info ''zzz999'' ''zzz_1234'' ''01'' ''/file/path'')" by simp
  from CustomTreeItem_init_complete [OF this, of blank Widget] obtain w' where
    w': "CustomTreeItem_init (file_info ''zzz999'' ''zzz_1234'' ''01'' ''/file/path'') blank Widget =
      Inr (length (items blank), w')" by blast
  from item_round_trip [OF w']
  have "map Some (item_texts (items w' ! length (items blank))) =
      map Some [''zzz999'', ''zzz_1234'', ''01'', ''/file/path'']"
    by (simp add: file_values_def file_info_def)
  then have "item_texts (items w' ! length (items blank)) =
      [''zzz999'', ''zzz_1234'', ''01'', ''/file/path'']"
    by (simp only: inj_map_eq_map [OF inj_Some])
  with w' show ?thesis by simp
qed

lemma module_tree:
  obtains w where "CustomTreeWidget_init module_data = Inr w"
    and "items w = store_items 0 (heads module_data)"
  using init_total [OF module_data_ok] init_items by blast

lemma heads_module_data:
  "heads module_data =
    [[file_info ''zzz999'' ''zzz_1234'' ''01'' ''/file/path''],
     [file_info ''zzz999'' ''zzz999_000'' ''02'' ''/file/path'',
      file_info ''zzz999'' ''zzz999_000'' ''01'' ''/file/path''],
     [file_info ''abc111'' ''abc111_5678'' ''05'' ''/file/path'',
      file_info ''abc111'' ''abc111_5678'' ''03'' ''/file/path'',
      file_info ''abc111'' ''abc111_5678'' ''02'' ''/file/path'',
      file_info ''abc111'' ''abc111_5678'' ''01'' ''/file/path'']]"
  by (simp add: heads_def module_data_def)

text \<open>The module's window after start-up: nothing is selected.\<close>

theorem no_selection_witness:
  "case UI_init of
     Inl e \<Rightarrow> False
   | Inr ui \<Rightarrow> selectedItems ui = [] \<and> show_data_useage ui = (ui, [''Please select a row''])"
proof -
  obtain w where w: "CustomTreeWidget_init module_data = Inr w"
    and its: "items w = store_items 0 (heads module_data)" by (rule module_tree)
  have s: "selectedItems \<lparr>treeWidget = w, selection = []\<rparr> = []"
    by (simp add: selectedItems_def)
  from no_selection [OF s] s w show ?thesis by (simp add: UI_init_def)
qed

text \<open>
  The node of \<^verbatim>\<open>/folderOne\<close>, made from \<^verbatim>\<open>{Sequence: 'zzz999', Shot: 'zzz_1234',
  Version: '01', Location: '/file/path'}\<close>, is the first item of the module's tree; with it
  selected, exactly these four strings are printed, and they are the four lines of the
  output.
\<close>

theorem show_selection_lines_witness:
  "case CustomTreeWidget_init module_data of
     Inl e \<Rightarrow> False
   | Inr w \<Rightarrow>
       selectedItems \<lparr>treeWidget = w, selection = [0]\<rparr> \<noteq> [] \<and>
       snd (show_data_useage \<lparr>treeWidget = w, selection = [0]\<rparr>) =
         [''>> Sequence: zzz999'', ''>> Shot: zzz_1234'', ''>> Version: 01'',
          ''>> Location: /file/path''] \<and>
       output_lines (stdout_text (snd (show_data_useage \<lparr>treeWidget = w, selection = [0]\<rparr>))) =
         [''>> Sequence: zzz999'', ''>> Shot: zzz_1234'', ''>> Version: 01'',
          ''>> Location: /file/path'']"
proof -
  obtain w where w: "CustomTreeWidget_init module_data = Inr w"
    and its: "items w = store_items 0 (heads module_data)" by (rule module_tree)
  let ?ui = "\<lparr>treeWidget = w, selection = [0]\<rparr>"
  let ?it = "new_item Widget (file_info ''zzz999'' ''zzz_1234'' ''01'' ''/file/path'')"
  have sel: "selectedItems ?ui = [?it]"
    by (simp add: selectedItems_def its heads_module_data)
  from show_selection_lines [OF sel]
  have "length (snd (show_data_useage ?ui)) = 4"
    and "take 4 (drop (4 * 0) (snd (show_data_useage ?ui))) =
      [''>> Sequence: zzz999'', ''>> Shot: zzz_1234'', ''>> Version: 01'',
       ''>> Location: /file/path'']"
    and lines: "output_lines (stdout_text (snd (show_data_useage ?ui))) = snd (show_data_useage ?ui)"
    by (simp_all add: new_item_def file_info_def)
  then have "snd (show_data_useage ?ui) =
      [''>> Sequence: zzz999'', ''>> Shot: zzz_1234'', ''>> Version: 01'',
       ''>> Location: /file/path'']"
    by simp
  with sel w lines show ?thesis by simp
qed

lemma module_counts:
  assumes "items w = store_items 0 (heads module_data)"
  shows "topLevelItems w = [0, 1, 3]"
    and "map (childCount w) (topLevelItems w) = [0, 1, 3]"
    and "children w (Item 3) = [4, 5, 6]"
    and "text (version (items w ! 3)) = ''05''"
    and "text (version (items w ! 4)) = ''03''"
proof -
  show tl: "topLevelItems w = [0, 1, 3]"
    by (simp add: topLevelItems_def children_built_Widget [OF assms] heads_module_data)
  have k: "\<And>j. children w (Item j) = kids 0 (heads module_data) j"
    by (rule children_built_Item [OF assms])
  show "map (childCount w) (topLevelItems w) = [0, 1, 3]"
    by (simp add: tl childCount_def k heads_module_data)
  show "children w (Item 3) = [4, 5, 6]"
    by (simp add: k heads_module_data upt_rec)
  show "text (version (items w ! 3)) = ''05''"
    by (simp add: assms heads_module_data new_item_def file_info_def)
  show "text (version (items w ! 4)) = ''03''"
    by (simp add: assms heads_module_data new_item_def file_info_def)
qed

text \<open>
  Claim C3, as stated, fails: the three top-level nodes of the module's tree do not have
  1, 2 and 4 children.
\<close>

theorem example_counts_counterexample:
  "case CustomTreeWidget_init module_data of
     Inl e \<Rightarrow> False
   | Inr w \<Rightarrow> map (childCount w) (topLevelItems w) \<noteq> [1, 2, 4]"
proof -
  obtain w where w: "CustomTreeWidget_init module_data = Inr w"
    and its: "items w = store_items 0 (heads module_data)" by (rule module_tree)
  from module_counts(2) [OF its] w show ?thesis by simp
qed

text \<open>
  Claim C3, amended. The module's dictionary builds a tree with exactly three top-level
  nodes, one per folder, which have 0, 1 and 3 children: the top-level node of a folder is
  itself the node of the folder's last version, and the other versions are its children.
  The top-level node of \<^verbatim>\<open>/folderThree\<close> has Version \<^verbatim>\<open>05\<close>; its first child has Version
  \<^verbatim>\<open>03\<close>.
\<close>

theorem example_counts:
  "case CustomTreeWidget_init module_data of
     Inl e \<Rightarrow> False
   | Inr w \<Rightarrow>
       length (topLevelItems w) = 3 \<and>
       map (childCount w) (topLevelItems w) = [0, 1, 3] \<and>
       text (version (items w ! (topLevelItems w ! 2))) = ''05'' \<and>
       text (version (items w ! (children w (Item (topLevelItems w ! 2)) ! 0))) = ''03''"
proof -
  obtain w where w: "CustomTreeWidget_init module_data = Inr w"
    and its: "items w = store_items 0 (heads module_data)" by (rule module_tree)
  note c = module_counts [OF its]
  have "topLevelItems w ! 2 = 3" by (simp add: c(1))
  with c w show ?thesis by simp
qed

lemma CustomTreeItem_init_data:
  "CustomTreeItem_init name (w\<lparr>data := x\<rparr>) h =
     map_sum id (\<lambda>p. (fst p, (snd p)\<lparr>data := x\<rparr>)) (CustomTreeItem_init name w h)"
  by (simp add: CustomTreeItem_init_def Let_def getitem_def setText_def setItemWidget_def
      split: option.splits)

lemma version_loop_data:
  "version_loop vals h (w\<lparr>data := x\<rparr>) = map_sum id (\<lambda>w'. w'\<lparr>data := x\<rparr>) (version_loop vals h w)"
proof (induction vals arbitrary: h w)
  case Nil
  then show ?case by simp
next
  case (Cons val vals)
  show ?case
  proof (cases val)
    case Nil
    then show ?thesis by simp
  next
    case (Cons name rest)
    show ?thesis
    proof (cases "CustomTreeItem_init name w h")
      case (Inl e)
      with Cons show ?thesis by (simp add: CustomTreeItem_init_data)
    next
      case (Inr p)
      obtain i w1 where p: "p = (i, w1)" by (cases p)
      with Inr Cons Cons.IH show ?thesis by (simp add: CustomTreeItem_init_data)
    qed
  qed
qed

lemma data_loop_data:
  "data_loop d (w\<lparr>data := x\<rparr>) = map_sum id (\<lambda>w'. w'\<lparr>data := x\<rparr>) (data_loop d w)"
proof (induction d arbitrary: w)
  case Nil
  then show ?case by simp
next
  case (Cons kv d)
  obtain key vals where kv: "kv = (key, vals)" by (cases kv)
  show ?case
    by (cases "version_loop (rev vals) Widget w") (simp_all add: kv version_loop_data Cons.IH)
qed

lemma init_as_loop:
  "CustomTreeWidget_init d = data_loop d (blank\<lparr>data := d\<rparr>)"
  by (simp add: CustomTreeWidget_init_def Let_def blank_def headers_def eval_nat_numeral)

lemma init_other_data:
  assumes "\<And>w. data_loop d w = data_loop d' w"
  shows "CustomTreeWidget_init d = map_sum id (\<lambda>w. w\<lparr>data := d\<rparr>) (CustomTreeWidget_init d')"
proof -
  have "CustomTreeWidget_init d = data_loop d' (blank\<lparr>data := d', data := d\<rparr>)"
    by (simp add: init_as_loop assms)
  also have "\<dots> = map_sum id (\<lambda>w. w\<lparr>data := d\<rparr>) (data_loop d' (blank\<lparr>data := d'\<rparr>))"
    by (rule data_loop_data)
  finally show ?thesis by (simp add: init_as_loop)
qed

lemma data_loop_skip_empty:
  "data_loop (pre @ (key, []) # post) w = data_loop (pre @ post) w"
proof (induction pre arbitrary: w)
  case Nil
  then show ?case by simp
next
  case (Cons kv pre)
  obtain k vals where kv: "kv = (k, vals)" by (cases kv)
  show ?case
    by (cases "version_loop (rev vals) Widget w") (simp_all add: kv Cons.IH)
qed

text \<open>
  Claim C8, as stated, fails: a folder with an empty list of version groups raises no
  error, but no node is made for it. The tree built from one such folder has no item at
  all.
\<close>

theorem empty_folder_counterexample:
  "CustomTreeWidget_init [(''/folderEmpty'', [])] =
     Inr \<lparr>data = [(''/folderEmpty'', [])], columnCount = 4,
          headerLabels = [''Sequence'', ''Shot'', ''Version'', ''Location''], items = [],
          itemWidget = Map.empty\<rparr>"
  by (simp add: CustomTreeWidget_init_def Let_def headers_def)

text \<open>
  Claim C8, amended. A folder with an empty list of version groups raises no error of its
  own and adds no node: the construction gives what it gives without that folder (the same
  error, or the same tree), except that the widget keeps the dictionary it was given.
\<close>

theorem empty_folder_adds_nothing:
  "CustomTreeWidget_init (pre @ (key, []) # post) =
     map_sum id (\<lambda>w. w\<lparr>data := pre @ (key, []) # post\<rparr>) (CustomTreeWidget_init (pre @ post))"
  by (rule init_other_data) (rule data_loop_skip_empty)

lemma folder_texts:
  assumes "CustomTreeWidget_init (pre @ (key, vals) # post) = Inr w" and "i < length vals"
  shows "rev vals ! i \<noteq> []"
    and "map Some (item_texts (items w ! (length (concat (map snd pre)) + i))) =
         file_values (rev vals ! i ! 0)"
proof -
  from assms(2) have "rev vals ! i \<in> set vals"
    by (metis length_rev nth_mem set_rev)
  with init_Inr(2) [OF assms(1)] have ne: "rev vals ! i \<noteq> []" and c: "complete (hd (rev vals ! i))"
    by auto
  show "rev vals ! i \<noteq> []" by (rule ne)
  from ne have "hd (rev vals ! i) = rev vals ! i ! 0" by (rule hd_conv_nth)
  with c show "map Some (item_texts (items w ! (length (concat (map snd pre)) + i))) =
         file_values (rev vals ! i ! 0)"
    by (simp add: folder_nth [OF assms] texts_new_item)
qed

lemma init_length:
  assumes "CustomTreeWidget_init d = Inr w"
  shows "length (items w) = length (concat (map snd d))"
  by (simp add: init_items [OF assms] length_store_items total_heads')

text \<open>
  Claim C1, as stated, fails: the root-level node of a folder is not a folder-label node
  with the versions under it. A folder with one version gives a tree of one item, at the
  root, carrying that version's fields.
\<close>

theorem folder_root_counterexample:
  "map_sum id items (CustomTreeWidget_init
      [(''/folderOne'', [[file_info ''zzz999'' ''zzz_1234'' ''01'' ''/file/path'']])]) =
   Inr [\<lparr>parent = Widget, sequence = \<lparr>text = ''zzz999''\<rparr>, shot = \<lparr>text = ''zzz_1234''\<rparr>,
         version = \<lparr>text = ''01''\<rparr>, location = \<lparr>text = ''/file/path''\<rparr>\<rparr>]"
  by (simp add: CustomTreeWidget_init_def Let_def CustomTreeItem_init_def getitem_def
      file_info_def setText_def QLabel_new_def setItemWidget_def)

text \<open>
  Claim C1, amended. When the tree is built, every folder with a non-empty list of version
  groups has exactly one root-level node among the nodes created for it (the nodes at
  positions \<open>r \<le> i < r + length vals\<close>, where \<open>r\<close> counts the groups of the folders
  before it). That node is the version node of the folder's last group; there is no
  folder-label node. All other nodes of the folder are children of that one node, directly
  (they have no children themselves): one level of nesting, not a deepening chain.
\<close>

theorem folder_root_is_last_version:
  assumes "CustomTreeWidget_init (pre @ (key, vals) # post) = Inr w" and "vals \<noteq> []"
  shows "filter (\<lambda>i. length (concat (map snd pre)) \<le> i \<and>
                      i < length (concat (map snd pre)) + length vals) (topLevelItems w) =
           [length (concat (map snd pre))] \<and>
         map Some (item_texts (items w ! length (concat (map snd pre)))) =
           file_values (last vals ! 0) \<and>
         children w (Item (length (concat (map snd pre)))) =
           [Suc (length (concat (map snd pre)))..<length (concat (map snd pre)) + length vals] \<and>
         (\<forall>c \<in> set (children w (Item (length (concat (map snd pre))))).
            children w (Item c) = [])"
proof -
  let ?r = "length (concat (map snd pre))"
  from assms(2) have pos: "0 < length vals" by simp
  have "rev vals ! 0 = last vals"
    using assms(2) by (simp add: last_conv_nth rev_nth)
  with folder_texts(2) [OF assms(1) pos]
  have root: "map Some (item_texts (items w ! ?r)) = file_values (last vals ! 0)" by simp
  have its: "items w = store_items 0 (heads (pre @ (key, vals) # post))"
    by (rule init_items [OF assms(1)])
  have flat: "\<forall>c \<in> set (children w (Item ?r)). children w (Item c) = []"
    by (simp add: children_built_Item [OF its] kids_of_kid)
  from folder_toplevel [OF assms] root folder_children [OF assms] flat
  show ?thesis by blast
qed

text \<open>
  In the module's tree, \<^verbatim>\<open>/folderThree\<close> comes after three groups of other folders: its
  root is item 3, with Version \<^verbatim>\<open>05\<close>, and items 4, 5 and 6 are the children of item 3.
\<close>

theorem folder_root_is_last_version_witness:
  "case CustomTreeWidget_init module_data of
     Inl e \<Rightarrow> False
   | Inr w \<Rightarrow>
       filter (\<lambda>i. 3 \<le> i \<and> i < 7) (topLevelItems w) = [3] \<and>
       item_texts (items w ! 3) = [''abc111'', ''abc111_5678'', ''05'', ''/file/path''] \<and>
       children w (Item 3) = [4, 5, 6] \<and>
       children w (Item 4) = [] \<and> children w (Item 5) = [] \<and> children w (Item 6) = []"
proof -
  obtain w where w: "CustomTreeWidget_init module_data = Inr w"
    and its: "items w = store_items 0 (heads module_data)" by (rule module_tree)
  let ?pre = "[(''/folderOne'',
        [[file_info ''zzz999'' ''zzz_1234'' ''01'' ''/file/path'']]),
     (''/folderTwo'',
        [[file_info ''zzz999'' ''zzz999_000'' ''01'' ''/file/path''],
         [file_info ''zzz999'' ''zzz999_000'' ''02'' ''/file/path'']])]"
  let ?vals = "[[file_info ''abc111'' ''abc111_5678'' ''01'' ''/file/path''],
         [file_info ''abc111'' ''abc111_5678'' ''02'' ''/file/path''],
         [file_info ''abc111'' ''abc111_5678'' ''03'' ''/file/path''],
         [file_info ''abc111'' ''abc111_5678'' ''05'' ''/file/path'']]"
  have split: "module_data = ?pre @ (''/folderThree'', ?vals) # []"
    by (simp add: module_data_def)
  from w split have w': "CustomTreeWidget_init (?pre @ (''/folderThree'', ?vals) # []) = Inr w"
    by simp
  have ne: "?vals \<noteq> []" by simp
  from folder_root_is_last_version [OF w' ne]
  have a: "filter (\<lambda>i. 3 \<le> i \<and> i < 7) (topLevelItems w) = [3]"
    and b: "map Some (item_texts (items w ! 3)) =
       file_values (file_info ''abc111'' ''abc111_5678'' ''05'' ''/file/path'')"
    and c': "children w (Item 3) = [4, 5, 6]"
    and d: "\<forall>c \<in> set (children w (Item 3)). children w (Item c) = []"
    by (simp_all add: eval_nat_numeral)
  from b have b': "item_texts (items w ! 3) = [''abc111'', ''abc111_5678'', ''05'', ''/file/path'']"
    by (simp add: file_values_def file_info_def item_texts_def)
  from d c' have "children w (Item 4) = []" "children w (Item 5) = []" "children w (Item 6) = []"
    by simp_all
  with a b' c' w show ?thesis by simp
qed

lemma displayed_init:
  assumes "CustomTreeWidget_init d = Inr w"
  shows "displayed w = [0..<length (items w)]"
  using displayed_built [OF init_items [OF assms]]
  by (simp add: init_items [OF assms] length_store_items)

text \<open>
  Claim C2. For a folder whose version groups are \<open>[g0, \<dots>, gn]\<close>, the rows of the view that
  belong to the folder (the rows after those of the folders before it) show, from top to
  bottom, the records of \<open>gn, \<dots>, g0\<close>: the folder's last group first, as the root-level
  row, then the others below it as its children, in reverse of the source order.
\<close>

theorem displayed_reversed:
  assumes "CustomTreeWidget_init (pre @ (key, vals) # post) = Inr w"
  shows "map (\<lambda>i. map Some (item_texts (items w ! i)))
           (take (length vals) (drop (length (concat (map snd pre))) (displayed w))) =
         map (\<lambda>g. file_values (g ! 0)) (rev vals)"
proof -
  let ?r = "length (concat (map snd pre))"
  have len: "length (items w) = ?r + length vals + length (concat (map snd post))"
    by (simp add: init_length [OF assms])
  have "take (length vals) (drop ?r (displayed w)) = [?r..<?r + length vals]"
    by (simp add: displayed_init [OF assms] len)
  moreover have "map (\<lambda>i. map Some (item_texts (items w ! i))) [?r..<?r + length vals] =
      map (\<lambda>g. file_values (g ! 0)) (rev vals)"
  proof (rule nth_equalityI)
    show "length (map (\<lambda>i. map Some (item_texts (items w ! i))) [?r..<?r + length vals]) =
        length (map (\<lambda>g. file_values (g ! 0)) (rev vals))"
      by simp
  next
    fix i
    assume "i < length (map (\<lambda>i. map Some (item_texts (items w ! i))) [?r..<?r + length vals])"
    then have i: "i < length vals" by simp
    from folder_texts(2) [OF assms i] i
    show "map (\<lambda>i. map Some (item_texts (items w ! i))) [?r..<?r + length vals] ! i =
        map (\<lambda>g. file_values (g ! 0)) (rev vals) ! i"
      by simp
  qed
  ultimately show ?thesis by simp
qed

text \<open>
  In the module's tree the rows of \<^verbatim>\<open>/folderTwo\<close> come after the one row of \<^verbatim>\<open>/folderOne\<close>:
  Version \<^verbatim>\<open>02\<close> first, then Version \<^verbatim>\<open>01\<close>.
\<close>

theorem displayed_reversed_witness:
  "case CustomTreeWidget_init module_data of
     Inl e \<Rightarrow> False
   | Inr w \<Rightarrow>
       map (\<lambda>i. item_texts (items w ! i)) (take 2 (drop 1 (displayed w))) =
         [[''zzz999'', ''zzz999_000'', ''02'', ''/file/path''],
          [''zzz999'', ''zzz999_000'', ''01'', ''/file/path'']]"
proof -
  obtain w where w: "CustomTreeWidget_init module_data = Inr w"
    and its: "items w = store_items 0 (heads module_data)" by (rule module_tree)
  let ?pre = "[(''/folderOne'',
        [[file_info ''zzz999'' ''zzz_1234'' ''01'' ''/file/path'']])]"
  let ?vals = "[[file_info ''zzz999'' ''zzz999_000'' ''01'' ''/file/path''],
         [file_info ''zzz999'' ''zzz999_000'' ''02'' ''/file/path'']]"
  let ?post = "[(''/folderThree'',
        [[file_info ''abc111'' ''abc111_5678'' ''01'' ''/file/path''],
         [file_info ''abc111'' ''abc111_5678'' ''02'' ''/file/path''],
         [file_info ''abc111'' ''abc111_5678'' ''03'' ''/file/path''],
         [file_info ''abc111'' ''abc111_5678'' ''05'' ''/file/path'']])]"
  have "module_data = ?pre @ (''/folderTwo'', ?vals) # ?post"
    by (simp add: module_data_def)
  with w have w': "CustomTreeWidget_init (?pre @ (''/folderTwo'', ?vals) # ?post) = Inr w"
    by simp
  from displayed_reversed [OF w']
  have "map (\<lambda>i. map Some (item_texts (items w ! i))) (take 2 (drop 1 (displayed w))) =
      [[Some ''zzz999'', Some ''zzz999_000'', Some ''02'', Some ''/file/path''],
       [Some ''zzz999'', Some ''zzz999_000'', Some ''01'', Some ''/file/path'']]"
    by (simp add: file_values_def file_info_def eval_nat_numeral)
  then have "map (map Some) (map (\<lambda>i. item_texts (items w ! i)) (take 2 (drop 1 (displayed w)))) =
      map (map Some) [[''zzz999'', ''zzz999_000'', ''02'', ''/file/path''],
       [''zzz999'', ''zzz999_000'', ''01'', ''/file/path'']]"
    by (simp add: comp_def)
  then have "map (\<lambda>i. item_texts (items w ! i)) (take 2 (drop 1 (displayed w))) =
      [[''zzz999'', ''zzz999_000'', ''02'', ''/file/path''],
       [''zzz999'', ''zzz999_000'', ''01'', ''/file/path'']]"
    by (simp only: inj_map_eq_map [OF inj_mapI [OF inj_Some]])
  with w show ?thesis by simp
qed

lemma getitem0_take: "getitem0 (take 1 val) = getitem0 val"
  by (cases val) simp_all

lemma version_loop_first_only:
  "version_loop (map (take 1) vals) h w = version_loop vals h w"
proof (induction vals arbitrary: h w)
  case Nil
  show ?case by simp
next
  case (Cons val vals)
  show ?case
    by (simp only: list.map version_loop.simps getitem0_take Cons.IH
        cong: sum.case_cong prod.case_cong)
qed

lemma data_loop_first_only:
  "data_loop (map (apsnd (map (take 1))) d) w = data_loop d w"
proof (induction d arbitrary: w)
  case Nil
  then show ?case by simp
next
  case (Cons kv d)
  obtain key vals where kv: "kv = (key, vals)" by (cases kv)
  show ?case
    by (simp only: kv list.map apsnd_conv data_loop.simps rev_map
        version_loop_first_only Cons.IH cong: sum.case_cong)
qed

text \<open>
  Claim C9. The tree has one node for every version group, and the node made from a group
  carries the four values of the group's element \<open>0\<close> (a group that reaches the builder
  and lets it return is not empty). Whatever else the groups hold plays no part: the
  dictionary with every group cut down to its first element builds the same tree (the
  widget keeping the cut-down dictionary).
\<close>

theorem one_node_per_group:
  assumes "CustomTreeWidget_init (pre @ (key, vals) # post) = Inr w" and "i < length vals"
  shows "length (items w) = length (concat (map snd (pre @ (key, vals) # post))) \<and>
         vals ! i \<noteq> [] \<and>
         map Some (item_texts (items w ! (length (concat (map snd pre)) + (length vals - 1 - i)))) =
           file_values (vals ! i ! 0) \<and>
         CustomTreeWidget_init (map (apsnd (map (take 1))) (pre @ (key, vals) # post)) =
           Inr (w\<lparr>data := map (apsnd (map (take 1))) (pre @ (key, vals) # post)\<rparr>)"
proof -
  let ?j = "length vals - 1 - i"
  from assms(2) have j: "?j < length vals" and nth_rev: "rev vals ! ?j = vals ! i"
    by (simp_all add: rev_nth)
  from folder_texts [OF assms(1) j] nth_rev
  have "vals ! i \<noteq> []"
    and "map Some (item_texts (items w ! (length (concat (map snd pre)) + ?j))) =
           file_values (vals ! i ! 0)"
    by simp_all
  moreover have "CustomTreeWidget_init (map (apsnd (map (take 1))) (pre @ (key, vals) # post)) =
      Inr (w\<lparr>data := map (apsnd (map (take 1))) (pre @ (key, vals) # post)\<rparr>)"
    using init_other_data [of "map (apsnd (map (take 1))) (pre @ (key, vals) # post)"
        "pre @ (key, vals) # post", OF data_loop_first_only]
    by (simp add: assms(1))
  ultimately show ?thesis using init_length [OF assms(1)] by blast
qed

text \<open>
  A folder whose two groups hold two records each: two nodes, from the first record of
  each group, last group first; the second records appear nowhere.
\<close>

theorem one_node_per_group_witness:
  "case CustomTreeWidget_init
       [(''/folderTwo'',
         [[file_info ''zzz999'' ''zzz999_000'' ''01'' ''/file/path'',
           file_info ''zzz999'' ''zzz999_000'' ''01b'' ''/other/path''],
          [file_info ''zzz999'' ''zzz999_000'' ''02'' ''/file/path'',
           file_info ''zzz999'' ''zzz999_000'' ''02b'' ''/other/path'']])] of
     Inl e \<Rightarrow> False
   | Inr w \<Rightarrow>
       length (items w) = 2 \<and>
       item_texts (items w ! 1) = [''zzz999'', ''zzz999_000'', ''01'', ''/file/path''] \<and>
       item_texts (items w ! 0) = [''zzz999'', ''zzz999_000'', ''02'', ''/file/path'']"
proof -
  let ?vals = "[[file_info ''zzz999'' ''zzz999_000'' ''01'' ''/file/path'',
           file_info ''zzz999'' ''zzz999_000'' ''01b'' ''/other/path''],
          [file_info ''zzz999'' ''zzz999_000'' ''02'' ''/file/path'',
           file_info ''zzz999'' ''zzz999_000'' ''02b'' ''/other/path'']]"
  have "\<forall>kv \<in> set [(''/folderTwo'', ?vals)]. \<forall>v \<in> set (snd kv). v \<noteq> [] \<and> complete (hd v)"
    by simp
  from init_total [OF this] obtain w where
    w: "CustomTreeWidget_init ([] @ (''/folderTwo'', ?vals) # []) = Inr w" by auto
  from one_node_per_group [OF w, of 0] one_node_per_group [OF w, of 1]
  have "length (items w) = 2"
    and "map Some (item_texts (items w ! 1)) =
       file_values (file_info ''zzz999'' ''zzz999_000'' ''01'' ''/file/path'')"
    and "map Some (item_texts (items w ! 0)) =
       file_values (file_info ''zzz999'' ''zzz999_000'' ''02'' ''/file/path'')"
    by simp_all
  then have "length (items w) = 2"
    and "item_texts (items w ! 1) = [''zzz999'', ''zzz999_000'', ''01'', ''/file/path'']"
    and "item_texts (items w ! 0) = [''zzz999'', ''zzz999_000'', ''02'', ''/file/path'']"
    by (simp_all add: file_values_def file_info_def item_texts_def)
  with w show ?thesis by simp
qed

end
